theory Spec2Isabelle
  imports Main "HOL-Library.Word"
begin

section \<open>JavaScript strings\<close>

text \<open>
  A JavaScript string is a sequence of 16-bit code units; \<open>length\<close> counts code units.
  String literals of the source are ASCII and are written through \<open>js\<close>.
\<close>

type_synonym jsstring = "16 word list"

definition js :: "string \<Rightarrow> jsstring" where
  "js s = map of_char s"

text \<open>\<open>String.prototype.startsWith\<close> and \<open>String.prototype.includes\<close> (substring search).\<close>

fun startsWith :: "jsstring \<Rightarrow> jsstring \<Rightarrow> bool" where
  "startsWith s [] = True"
| "startsWith [] (c # cs) = False"
| "startsWith (d # ds) (c # cs) = (d = c \<and> startsWith ds cs)"

fun includes_str :: "jsstring \<Rightarrow> jsstring \<Rightarrow> bool" where
  "includes_str [] sub = startsWith [] sub"
| "includes_str (d # ds) sub = (startsWith (d # ds) sub \<or> includes_str ds sub)"

section \<open>The ISBN pattern of \<open>handleDetection\<close>\<close>

text \<open>
  \<open>const isbnRegex = /^(?:\d{10}|\d{13})$/;\<close> (BarcodeScanner, \<open>handleDetection\<close>).
  The fragment of ECMAScript patterns it uses: \<open>\d\<close> (the code units \<open>0\<close> to \<open>9\<close> only),
  bounded repetition \<open>r{n}\<close>, alternation, sequence, and the assertions \<open>^\<close> and \<open>$\<close>, which
  without the \<open>m\<close> flag hold only at the start and at the end of the input.
\<close>

datatype regex =
    Digit
  | Repeat nat regex
  | Alt regex regex
  | Seq regex regex
  | Bol
  | Eol

definition isDigit :: "16 word \<Rightarrow> bool" where
  "isDigit c = (0x30 \<le> c \<and> c \<le> 0x39)"

text \<open>
  Backtracking matcher: \<open>rmatch r inp i\<close> lists the positions at which a match of \<open>r\<close> that
  starts at position \<open>i\<close> of \<open>inp\<close> can end, in the order the engine tries them.
\<close>

primrec rep :: "nat \<Rightarrow> (nat \<Rightarrow> nat list) \<Rightarrow> nat list \<Rightarrow> nat list" where
  "rep 0 f ps = ps"
| "rep (Suc n) f ps = rep n f (concat (map f ps))"

primrec rmatch :: "regex \<Rightarrow> jsstring \<Rightarrow> nat \<Rightarrow> nat list" where
  "rmatch Digit inp i = (if i < length inp \<and> isDigit (inp ! i) then [Suc i] else [])"
| "rmatch (Repeat n r) inp i = rep n (rmatch r inp) [i]"
| "rmatch (Alt r1 r2) inp i = rmatch r1 inp i @ rmatch r2 inp i"
| "rmatch (Seq r1 r2) inp i = concat (map (rmatch r2 inp) (rmatch r1 inp i))"
| "rmatch Bol inp i = (if i = 0 then [i] else [])"
| "rmatch Eol inp i = (if i = length inp then [i] else [])"

text \<open>
  \<open>RegExp.prototype.test\<close> without the \<open>g\<close> and \<open>y\<close> flags: the pattern is tried at every
  start position from 0 to the length of the input.
\<close>

definition regex_test :: "regex \<Rightarrow> jsstring \<Rightarrow> bool" where
  "regex_test r inp = list_ex (\<lambda>i. rmatch r inp i \<noteq> []) [0..<Suc (length inp)]"

definition isbnRegex :: regex where
  "isbnRegex = Seq Bol (Seq (Alt (Repeat 10 Digit) (Repeat 13 Digit)) Eol)"

text \<open>
  The specification's wording of the validation predicate: exactly 10 or exactly 13
  decimal digit characters.
\<close>

definition isAcceptableDecode_spec :: "jsstring \<Rightarrow> bool" where
  "isAcceptableDecode_spec s = ((length s = 10 \<or> length s = 13) \<and> list_all isDigit s)"

section \<open>The scanner hook \<open>useScanner\<close>\<close>

subsection \<open>Data\<close>

text \<open>\<open>MediaDeviceInfo\<close> as the hook reads it: an id and a label.\<close>

record MediaDeviceInfo =
  deviceId :: jsstring
  label :: jsstring

text \<open>A \<open>MediaStream\<close> object is known by its identity; stopping its tracks is an effect.\<close>

type_synonym MediaStream = nat

datatype BarcodeFormat = EAN_13 | EAN_8 | UPC_A | UPC_E | CODE_39 | CODE_128

text \<open>The reader the mount effect creates: \<open>new BrowserMultiFormatReader(hints, 500)\<close>.\<close>

record BrowserMultiFormatReader =
  possibleFormats :: "BarcodeFormat list"
  tryHarder :: bool
  timeBetweenScans :: nat

text \<open>
  The hook's React state (\<open>useState\<close>) and its refs (\<open>useRef\<close>). The empty string
  is "no camera selected" and "no error"; \<open>None\<close> is a ref holding \<open>null\<close>.
\<close>

record scanner =
  isScanning :: bool
  cameras :: "MediaDeviceInfo list"
  selectedCamera :: jsstring
  error :: jsstring
  readerRef :: "BrowserMultiFormatReader option"
  streamRef :: "MediaStream option"

text \<open>The two callbacks the hook hands to \<open>setTimeout(\<dots>, 500)\<close>.\<close>

datatype timer =
    CaptureStream
  | RestartScan jsstring

text \<open>
  Everything an operation does, in program order: the state setters and ref assignments,
  and the calls to the collaborators (media platform, decoding engine, timers, the
  consumer callback and the toasts of the component). Console output is left out.
\<close>

datatype action =
    SetIsScanning bool
  | SetCameras "MediaDeviceInfo list"
  | SetSelectedCamera jsstring
  | SetError jsstring
  | SetStreamRef "MediaStream option"
  | StopTracks MediaStream
  | ReaderReset
  | GetUserMedia
  | ListVideoInputDevices
  | DecodeFromVideoDevice jsstring
  | SetTimeout timer
  | OnDetected jsstring
  | ToastSuccess jsstring
  | ToastError

text \<open>
  What the collaborators answer during one call. \<open>getUserMedia\<close>: the stream granted, or
  \<open>None\<close> when the promise rejects. \<open>listVideoInputDevices\<close>: the devices, or \<open>None\<close> when
  the promise rejects. \<open>decodeFromVideoDevice\<close>: whether the call throws, and otherwise
  whether the value it returns is truthy. \<open>srcObject\<close>: the stream attached to the element
  \<open>video-preview\<close>, if the element exists and holds a \<open>MediaStream\<close>.
  \<open>toLowerCase\<close> is the built-in \<open>String.prototype.toLowerCase\<close>, taken as given.
  \<open>reader.reset()\<close> and \<open>track.stop()\<close> are taken not to throw, so the outer handler of
  \<open>startScanning\<close> (\<open>Failed to start the barcode scanner.\<close>) has no branch here.
\<close>

datatype decode_outcome = DecodeThrows | DecodeReturns bool

record platform =
  getUserMedia :: "MediaStream option"
  listVideoInputDevices :: "MediaDeviceInfo list option"
  decodeFromVideoDevice :: decode_outcome
  srcObject :: "MediaStream option"
  toLowerCase :: "jsstring \<Rightarrow> jsstring"

subsection \<open>Running actions\<close>

fun apply_action :: "action \<Rightarrow> scanner \<Rightarrow> scanner" where
  "apply_action (SetIsScanning b) s = s\<lparr>isScanning := b\<rparr>"
| "apply_action (SetCameras ds) s = s\<lparr>cameras := ds\<rparr>"
| "apply_action (SetSelectedCamera d) s = s\<lparr>selectedCamera := d\<rparr>"
| "apply_action (SetError e) s = s\<lparr>error := e\<rparr>"
| "apply_action (SetStreamRef r) s = s\<lparr>streamRef := r\<rparr>"
| "apply_action (StopTracks st) s = s"
| "apply_action ReaderReset s = s"
| "apply_action GetUserMedia s = s"
| "apply_action ListVideoInputDevices s = s"
| "apply_action (DecodeFromVideoDevice d) s = s"
| "apply_action (SetTimeout t) s = s"
| "apply_action (OnDetected r) s = s"
| "apply_action (ToastSuccess r) s = s"
| "apply_action ToastError s = s"

definition exec :: "action list \<Rightarrow> scanner \<Rightarrow> scanner" where
  "exec acts s = fold apply_action acts s"

subsection \<open>Initial state and the mount effect\<close>

definition initial :: scanner where
  "initial = \<lparr>isScanning = False, cameras = [], selectedCamera = [], error = [],
              readerRef = None, streamRef = None\<rparr>"

definition newReader :: BrowserMultiFormatReader where
  "newReader = \<lparr>possibleFormats = [EAN_13, EAN_8, UPC_A, UPC_E, CODE_39, CODE_128],
                tryHarder = True, timeBetweenScans = 500\<rparr>"

definition mount :: "scanner \<Rightarrow> scanner" where
  "mount s = s\<lparr>readerRef := Some newReader\<rparr>"

subsection \<open>\<open>stopScanning\<close>\<close>

definition stopScanning :: "scanner \<Rightarrow> action list" where
  "stopScanning s =
     (case streamRef s of
        Some st \<Rightarrow> [StopTracks st, SetStreamRef None]
      | None \<Rightarrow> [])
     @ (case readerRef s of
          Some r \<Rightarrow> [ReaderReset]
        | None \<Rightarrow> [])
     @ [SetIsScanning False]"

text \<open>The cleanup of the mount effect: \<open>stopScanning()\<close>, then a reset of the reader.\<close>

definition unmount :: "scanner \<Rightarrow> action list" where
  "unmount s =
     stopScanning s
     @ (case readerRef s of
          Some r \<Rightarrow> [ReaderReset]
        | None \<Rightarrow> [])"

subsection \<open>\<open>getCameras\<close>\<close>

definition permissionDenied :: jsstring where
  "permissionDenied =
     js ''Camera permission denied. Please enable camera access in your browser settings.''"

definition couldNotAccess :: jsstring where
  "couldNotAccess = js ''Could not access cameras. Please check your permissions.''"

text \<open>The predicate handed to \<open>devices.find\<close>.\<close>

definition isBackCamera :: "(jsstring \<Rightarrow> jsstring) \<Rightarrow> MediaDeviceInfo \<Rightarrow> bool" where
  "isBackCamera lower device =
     (includes_str (lower (label device)) (js ''back'')
      \<or> includes_str (lower (label device)) (js ''traseira'')
      \<or> includes_str (lower (label device)) (js ''rear''))"

text \<open>
  \<open>backCamera?.deviceId || devices[0].deviceId\<close>, for a list with first element \<open>d0\<close>:
  \<open>||\<close> takes its right operand when the left one is \<open>undefined\<close> or the empty string.
\<close>

definition cameraToUse :: "(jsstring \<Rightarrow> jsstring) \<Rightarrow> MediaDeviceInfo \<Rightarrow> MediaDeviceInfo list \<Rightarrow> jsstring" where
  "cameraToUse lower d0 ds =
     (case find (isBackCamera lower) (d0 # ds) of
        Some backCamera \<Rightarrow> (if deviceId backCamera \<noteq> [] then deviceId backCamera else deviceId d0)
      | None \<Rightarrow> deviceId d0)"

definition getCameras :: "platform \<Rightarrow> scanner \<Rightarrow> action list" where
  "getCameras env s =
     SetError [] # GetUserMedia #
     (case getUserMedia env of
        None \<Rightarrow> [SetError permissionDenied]
      | Some stream \<Rightarrow>
          StopTracks stream #
          (case readerRef s of
             None \<Rightarrow> []
           | Some r \<Rightarrow>
               ListVideoInputDevices #
               (case listVideoInputDevices env of
                  None \<Rightarrow> [SetError couldNotAccess]
                | Some devices \<Rightarrow>
                    SetCameras devices #
                    (case devices of
                       [] \<Rightarrow> []
                     | d0 # ds \<Rightarrow>
                         if selectedCamera s = []
                         then [SetSelectedCamera (cameraToUse (toLowerCase env) d0 ds)]
                         else []))))"

subsection \<open>\<open>startScanning\<close>\<close>

definition errorInitializing :: jsstring where
  "errorInitializing = js ''Error initializing camera scanner.''"

definition startScanning :: "platform \<Rightarrow> scanner \<Rightarrow> action list" where
  "startScanning env s =
     SetError [] #
     (case readerRef s of
        None \<Rightarrow> []
      | Some r \<Rightarrow>
          if selectedCamera s = [] \<and> cameras s = [] then getCameras env s
          else
            (if isScanning s then stopScanning s else [])
            @ [SetIsScanning True, ReaderReset, DecodeFromVideoDevice (selectedCamera s)]
            @ (case decodeFromVideoDevice env of
                 DecodeThrows \<Rightarrow> [SetError errorInitializing, SetIsScanning False]
               | DecodeReturns promise \<Rightarrow> (if promise then [SetTimeout CaptureStream] else [])))"

subsection \<open>\<open>changeCamera\<close>\<close>

definition changeCamera :: "scanner \<Rightarrow> jsstring \<Rightarrow> action list" where
  "changeCamera s device =
     (if isScanning s then stopScanning s else [])
     @ [SetSelectedCamera device, SetTimeout (RestartScan device)]"

subsection \<open>The delayed callbacks\<close>

text \<open>
  The callback of \<open>startScanning\<close>'s timer stores the stream of the video element.
  The callback of \<open>changeCamera\<close>'s timer calls the \<open>startScanning\<close> of the render in which
  \<open>changeCamera\<close> was called: it reads \<open>isScanning\<close>, \<open>cameras\<close> and \<open>selectedCamera\<close> as they
  were then (\<open>closure\<close>), and the refs as they are when it runs.
\<close>

definition captureStream :: "platform \<Rightarrow> action list" where
  "captureStream env =
     (case srcObject env of
        Some stream \<Rightarrow> [SetStreamRef (Some stream)]
      | None \<Rightarrow> [])"

definition staleView :: "scanner \<Rightarrow> scanner \<Rightarrow> scanner" where
  "staleView closure s =
     s\<lparr>isScanning := isScanning closure, cameras := cameras closure,
       selectedCamera := selectedCamera closure\<rparr>"

definition restartScan :: "platform \<Rightarrow> scanner \<Rightarrow> jsstring \<Rightarrow> scanner \<Rightarrow> action list" where
  "restartScan env closure device s =
     (if device \<noteq> [] then startScanning env (staleView closure s) else [])"

subsection \<open>The component's \<open>handleDetection\<close> and the decode callback\<close>

definition handleDetection :: "scanner \<Rightarrow> jsstring \<Rightarrow> action list" where
  "handleDetection s result =
     (if regex_test isbnRegex result
      then [ToastSuccess result, OnDetected result] @ stopScanning s
      else [ToastError])"

text \<open>
  The callback given to \<open>decodeFromVideoDevice\<close>: a frame with a result hands its text to
  \<open>onDetected\<close>, which the component sets to \<open>handleDetection\<close>; a frame without one does
  nothing.
\<close>

definition decodeCallback :: "scanner \<Rightarrow> jsstring option \<Rightarrow> action list" where
  "decodeCallback s result =
     (case result of
        Some text \<Rightarrow> handleDetection s text
      | None \<Rightarrow> [])"

subsection \<open>Sequences of calls\<close>

text \<open>
  The calls that reach the hook: the mount effect and its cleanup, the four operations it
  returns, the two delayed callbacks, and a frame of the decode loop. \<open>TimerRestart\<close> carries the state
  its closure saw.
\<close>

datatype call =
    Mount
  | Unmount
  | EnumerateDevices platform
  | SelectDevice jsstring
  | StartScanning platform
  | StopScanning
  | TimerCapture platform
  | TimerRestart platform scanner jsstring
  | Frame "jsstring option"

fun step :: "call \<Rightarrow> scanner \<Rightarrow> scanner" where
  "step Mount s = mount s"
| "step Unmount s = exec (unmount s) s"
| "step (EnumerateDevices env) s = exec (getCameras env s) s"
| "step (SelectDevice device) s = exec (changeCamera s device) s"
| "step (StartScanning env) s = exec (startScanning env s) s"
| "step StopScanning s = exec (stopScanning s) s"
| "step (TimerCapture env) s = exec (captureStream env) s"
| "step (TimerRestart env closure device) s = exec (restartScan env closure device s) s"
| "step (Frame result) s = exec (decodeCallback s result) s"

fun run :: "call list \<Rightarrow> scanner \<Rightarrow> scanner" where
  "run [] s = s"
| "run (c # cs) s = run cs (step c s)"

text \<open>The data-model invariant on the selection.\<close>

definition selectedInDevices :: "scanner \<Rightarrow> bool" where
  "selectedInDevices s =
     (selectedCamera s = [] \<or> selectedCamera s \<in> set (map deviceId (cameras s)))"

text \<open>
  A device refresh that still lists the selected camera, and a call that respects the
  constraint of \<open>selectDevice\<close> (an id of the current list, or none).
\<close>

definition refreshKeeps :: "platform \<Rightarrow> scanner \<Rightarrow> bool" where
  "refreshKeeps env s =
     (case listVideoInputDevices env of
        None \<Rightarrow> True
      | Some devices \<Rightarrow> selectedCamera s = [] \<or> selectedCamera s \<in> set (map deviceId devices))"

fun allowed :: "call \<Rightarrow> scanner \<Rightarrow> bool" where
  "allowed (EnumerateDevices env) s = refreshKeeps env s"
| "allowed (StartScanning env) s = refreshKeeps env s"
| "allowed (TimerRestart env closure device) s = refreshKeeps env s"
| "allowed (SelectDevice device) s = (device = [] \<or> device \<in> set (map deviceId (cameras s)))"
| "allowed Mount s = True"
| "allowed Unmount s = True"
| "allowed StopScanning s = True"
| "allowed (TimerCapture env) s = True"
| "allowed (Frame result) s = True"

fun admissible :: "call list \<Rightarrow> scanner \<Rightarrow> bool" where
  "admissible [] s = True"
| "admissible (c # cs) s = (allowed c s \<and> admissible cs (step c s))"

text \<open>\<open>String.prototype.toLowerCase\<close> on ASCII text, for the examples.\<close>

definition asciiLower :: "jsstring \<Rightarrow> jsstring" where
  "asciiLower s = map (\<lambda>c. if 0x41 \<le> c \<and> c \<le> 0x5A then c + 0x20 else c) s"

subsection \<open>Example devices, platforms and states\<close>

definition frontCam :: MediaDeviceInfo where
  "frontCam = \<lparr>deviceId = js ''cam-a'', label = js ''Front''\<rparr>"

definition backCam :: MediaDeviceInfo where
  "backCam = \<lparr>deviceId = js ''cam-b'', label = js ''Back Camera''\<rparr>"

definition usbCam :: MediaDeviceInfo where
  "usbCam = \<lparr>deviceId = js ''cam-c'', label = js ''USB Cam''\<rparr>"

definition grantingPlatform :: "MediaDeviceInfo list \<Rightarrow> platform" where
  "grantingPlatform devices =
     \<lparr>getUserMedia = Some 1, listVideoInputDevices = Some devices,
      decodeFromVideoDevice = DecodeReturns True, srcObject = Some 2,
      toLowerCase = asciiLower\<rparr>"

definition denyingPlatform :: platform where
  "denyingPlatform =
     \<lparr>getUserMedia = None, listVideoInputDevices = Some [frontCam, backCam],
      decodeFromVideoDevice = DecodeReturns True, srcObject = None,
      toLowerCase = asciiLower\<rparr>"

definition mounted :: scanner where
  "mounted = mount initial"

definition scanningBack :: scanner where
  "scanningBack =
     mounted\<lparr>isScanning := True, cameras := [frontCam, backCam],
             selectedCamera := js ''cam-b'', streamRef := Some 2\<rparr>"

definition staleError :: scanner where
  "staleError = initial\<lparr>error := js ''Error initializing camera scanner.''\<rparr>"

text \<open>
  A platform that grants the camera and lists a front and a back camera; the session once
  the reader is mounted and these devices are enumerated; and the session right after a
  first \<open>startScanning\<close>, before the delayed callback has run.
\<close>

definition twoCameras :: platform where
  "twoCameras = grantingPlatform [frontCam, backCam]"

definition ready :: scanner where
  "ready = run [Mount, EnumerateDevices twoCameras] initial"

definition started :: scanner where
  "started = run [StartScanning twoCameras] ready"

definition ghost :: jsstring where
  "ghost = js ''ghost''"

definition isbn13 :: jsstring where
  "isbn13 = js ''9780345391803''"

definition notIsbn :: jsstring where
  "notIsbn = js ''ABC123''"

section \<open>Auxiliary facts\<close>

lemmas example_defs =
  frontCam_def backCam_def usbCam_def grantingPlatform_def
  denyingPlatform_def mounted_def scanningBack_def staleError_def ghost_def isbn13_def
  twoCameras_def ready_def started_def
  notIsbn_def mount_def initial_def newReader_def js_def asciiLower_def

lemmas operation_defs =
  getCameras_def cameraToUse_def isBackCamera_def startScanning_def stopScanning_def
  changeCamera_def captureStream_def restartScan_def staleView_def handleDetection_def
  decodeCallback_def unmount_def refreshKeeps_def selectedInDevices_def exec_def

subsection \<open>Running actions\<close>

lemma exec_Nil: "exec [] s = s"
  by (simp add: exec_def)

lemma exec_Cons: "exec (a # as) s = exec as (apply_action a s)"
  by (simp add: exec_def)

lemma exec_append: "exec (as @ bs) s = exec bs (exec as s)"
  by (simp add: exec_def)

text \<open>
  The fields after \<open>stopScanning\<close>, also when its actions were computed from another view
  \<open>v\<close> of the state.
\<close>

lemma stop_fields:
  "isScanning (exec (stopScanning v) s) = False"
  "streamRef (exec (stopScanning v) s) = (if streamRef v = None then streamRef s else None)"
  "cameras (exec (stopScanning v) s) = cameras s"
  "selectedCamera (exec (stopScanning v) s) = selectedCamera s"
  "error (exec (stopScanning v) s) = error s"
  "readerRef (exec (stopScanning v) s) = readerRef s"
  by (simp_all add: stopScanning_def exec_def split: option.splits)

subsection \<open>The reader, once mounted, stays\<close>

lemma readerRef_apply_action: "readerRef (apply_action a s) = readerRef s"
  by (cases a) simp_all

lemma readerRef_exec: "readerRef (exec acts s) = readerRef s"
  by (induction acts arbitrary: s) (simp_all add: exec_Nil exec_Cons readerRef_apply_action)

lemma readerRef_step: "readerRef s \<noteq> None \<Longrightarrow> readerRef (step c s) \<noteq> None"
  by (cases c) (simp_all add: readerRef_exec mount_def)

lemma readerRef_run: "readerRef s \<noteq> None \<Longrightarrow> readerRef (run cs s) \<noteq> None"
proof (induction cs arbitrary: s)
  case Nil
  then show ?case by simp
next
  case (Cons c cs)
  from Cons.prems have "readerRef (step c s) \<noteq> None"
    by (rule readerRef_step)
  then have "readerRef (run cs (step c s)) \<noteq> None"
    by (rule Cons.IH)
  then show ?case by simp
qed

lemma readerRef_after_mount: "readerRef (run cs (mount s)) \<noteq> None"
  by (rule readerRef_run) (simp add: mount_def)

subsection \<open>Restarting a running scan\<close>

text \<open>
  When \<open>startScanning\<close> finds the session scanning, it runs \<open>stopScanning\<close> and resets the
  reader before it calls \<open>decodeFromVideoDevice\<close>. The tracks of the running stream are
  stopped by the hook itself only if the delayed callback has stored the stream: with an
  empty \<open>streamRef\<close> the hook stops no track and releasing the stream is left to the
  reader's \<open>reset\<close>.
\<close>

lemma startScanning_restart:
  assumes "isScanning s" and "readerRef s = Some r"
    and "selectedCamera s \<noteq> [] \<or> cameras s \<noteq> []"
  shows "\<exists>rest. startScanning env s =
           SetError [] # stopScanning s
           @ [SetIsScanning True, ReaderReset, DecodeFromVideoDevice (selectedCamera s)]
           @ rest"
  using assms by (auto simp add: startScanning_def)

lemma startScanning_restart_without_handle:
  assumes "streamRef s = None"
    and "selectedCamera s \<noteq> [] \<or> cameras s \<noteq> []"
  shows "StopTracks st \<notin> set (startScanning env s)"
  using assms
  by (auto simp add: startScanning_def stopScanning_def
      split: option.splits decode_outcome.splits)

lemma captureStream_after_stop:
  "srcObject env = Some st \<Longrightarrow>
     streamRef (run [StopScanning, TimerCapture env] s) = Some st"
  by (simp add: captureStream_def exec_def)

subsection \<open>The pattern\<close>

lemma concat_rmatch_Digit:
  "concat (map (rmatch Digit inp) ps) =
     map Suc (filter (\<lambda>p. p < length inp \<and> isDigit (inp ! p)) ps)"
  by (induction ps) auto

lemma all_less_Suc_shift:
  "(\<forall>k<Suc n. P k) \<longleftrightarrow> (P 0 \<and> (\<forall>k<n. P (Suc k)))"
  by (metis less_Suc_eq_0_disj)

text \<open>\<open>\d{n}\<close> from position \<open>p\<close> ends at \<open>p + n\<close>, and only over \<open>n\<close> digits.\<close>

lemma rep_Digit:
  "rep n (rmatch Digit inp) ps =
     map (\<lambda>p. p + n)
       (filter (\<lambda>p. \<forall>k<n. p + k < length inp \<and> isDigit (inp ! (p + k))) ps)"
proof (induction n arbitrary: ps)
  case 0
  then show ?case by simp
next
  case (Suc n)
  have "rep (Suc n) (rmatch Digit inp) ps =
          rep n (rmatch Digit inp) (concat (map (rmatch Digit inp) ps))"
    by (simp only: rep.simps)
  also have "\<dots> = rep n (rmatch Digit inp)
                      (map Suc (filter (\<lambda>p. p < length inp \<and> isDigit (inp ! p)) ps))"
    by (simp only: concat_rmatch_Digit)
  also have "\<dots> = map (\<lambda>p. p + n)
      (filter (\<lambda>p. \<forall>k<n. p + k < length inp \<and> isDigit (inp ! (p + k)))
         (map Suc (filter (\<lambda>p. p < length inp \<and> isDigit (inp ! p)) ps)))"
    by (rule Suc)
  also have "\<dots> = map (\<lambda>p. p + Suc n)
      (filter (\<lambda>p. \<forall>k<Suc n. p + k < length inp \<and> isDigit (inp ! (p + k))) ps)"
    by (simp add: filter_map o_def all_less_Suc_shift conj_commute cong: conj_cong)
  finally show ?case .
qed

lemma rmatch_isbnRegex:
  "rmatch isbnRegex s i \<noteq> [] \<longleftrightarrow> i = 0 \<and> isAcceptableDecode_spec s"
  apply (simp add: isbnRegex_def rep_Digit isAcceptableDecode_spec_def list_all_length)
  apply (auto split: if_splits)
  done

lemma test_isbnRegex: "regex_test isbnRegex s \<longleftrightarrow> isAcceptableDecode_spec s"
  unfolding regex_test_def list_ex_iff
  by (auto simp: rmatch_isbnRegex)

subsection \<open>Errors after \<open>getCameras\<close> and \<open>startScanning\<close>\<close>

lemma getCameras_error:
  "error (exec (getCameras env v) s) =
     (case getUserMedia env of
        None \<Rightarrow> permissionDenied
      | Some st \<Rightarrow>
          (case readerRef v of
             None \<Rightarrow> []
           | Some r \<Rightarrow>
               (case listVideoInputDevices env of
                  None \<Rightarrow> couldNotAccess
                | Some ds \<Rightarrow> [])))"
  by (simp add: getCameras_def exec_def split: option.splits list.splits)

lemma startScanning_error:
  "error (exec (startScanning env v) s) =
     (case readerRef v of
        None \<Rightarrow> []
      | Some r \<Rightarrow>
          if selectedCamera v = [] \<and> cameras v = [] then error (exec (getCameras env v) s)
          else (case decodeFromVideoDevice env of
                  DecodeThrows \<Rightarrow> errorInitializing
                | DecodeReturns p \<Rightarrow> []))"
proof (cases "readerRef v")
  case None
  then show ?thesis by (simp add: startScanning_def exec_def)
next
  case (Some r)
  show ?thesis
  proof (cases "selectedCamera v = [] \<and> cameras v = []")
    case True
    have "error (exec (getCameras env v) (apply_action (SetError []) s)) =
            error (exec (getCameras env v) s)"
      by (simp only: getCameras_error)
    with True Some show ?thesis
      by (simp add: startScanning_def exec_Cons)
  next
    case False
    with Some show ?thesis
      by (cases "decodeFromVideoDevice env")
         (auto simp add: startScanning_def exec_Cons exec_append exec_Nil stop_fields)
  qed
qed

subsection \<open>The selection invariant, step by step\<close>

lemma cameraToUse_listed:
  "cameraToUse lower d0 ds \<in> set (map deviceId (d0 # ds))"
proof (cases "find (isBackCamera lower) (d0 # ds)")
  case None
  then show ?thesis by (simp add: cameraToUse_def)
next
  case (Some b)
  then obtain i where "i < length (d0 # ds)" and "b = (d0 # ds) ! i"
    unfolding find_Some_iff by blast
  then have "b \<in> set (d0 # ds)"
    by (simp only: nth_mem)
  with Some show ?thesis
    by (auto simp add: cameraToUse_def simp del: find.simps)
qed

lemma selectedInDevices_fields:
  "selectedCamera s' = selectedCamera s \<Longrightarrow> cameras s' = cameras s \<Longrightarrow>
     selectedInDevices s \<Longrightarrow> selectedInDevices s'"
  by (simp add: selectedInDevices_def)

lemma getCameras_keeps_invariant:
  assumes "selectedInDevices s" and "refreshKeeps env s"
  shows "selectedInDevices (exec (getCameras env v) s)"
proof (cases "getUserMedia env")
  case None
  then show ?thesis
    using assms(1) by (simp add: getCameras_def exec_def selectedInDevices_def)
next
  case granted: (Some st)
  show ?thesis
  proof (cases "readerRef v")
    case None
    with granted show ?thesis
      using assms(1) by (simp add: getCameras_def exec_def selectedInDevices_def)
  next
    case reader: (Some r)
    show ?thesis
    proof (cases "listVideoInputDevices env")
      case None
      with granted reader show ?thesis
        using assms(1) by (simp add: getCameras_def exec_def selectedInDevices_def)
    next
      case listed: (Some devices)
      from assms(2) listed
      have keep: "selectedCamera s = [] \<or> selectedCamera s \<in> set (map deviceId devices)"
        by (simp add: refreshKeeps_def)
      show ?thesis
      proof (cases devices)
        case Nil
        with granted reader listed keep show ?thesis
          by (simp add: getCameras_def exec_def selectedInDevices_def)
      next
        case (Cons d0 ds)
        have "cameraToUse (toLowerCase env) d0 ds \<in> set (map deviceId (d0 # ds))"
          by (rule cameraToUse_listed)
        with granted reader listed keep Cons show ?thesis
          by (simp add: getCameras_def exec_def selectedInDevices_def)
      qed
    qed
  qed
qed

lemma apply_SetError_invariant:
  "selectedInDevices (apply_action (SetError e) s) = selectedInDevices s"
  "refreshKeeps env (apply_action (SetError e) s) = refreshKeeps env s"
  by (simp_all add: selectedInDevices_def refreshKeeps_def cong: option.case_cong)

lemma startScanning_keeps_invariant:
  assumes "selectedInDevices s" and "refreshKeeps env s"
  shows "selectedInDevices (exec (startScanning env v) s)"
proof (cases "readerRef v")
  case None
  with assms(1) show ?thesis
    by (simp add: startScanning_def exec_def selectedInDevices_def)
next
  case (Some r)
  show ?thesis
  proof (cases "selectedCamera v = [] \<and> cameras v = []")
    case True
    have "selectedInDevices (exec (getCameras env v) (apply_action (SetError []) s))"
      by (rule getCameras_keeps_invariant) (simp_all only: apply_SetError_invariant assms)
    with True Some show ?thesis
      by (simp add: startScanning_def exec_Cons)
  next
    case False
    have "selectedCamera (exec (startScanning env v) s) = selectedCamera s"
         "cameras (exec (startScanning env v) s) = cameras s"
      using False Some
      by (cases "decodeFromVideoDevice env";
          auto simp add: startScanning_def exec_Cons exec_append exec_Nil stop_fields)+
    then show ?thesis
      using assms(1) by (rule selectedInDevices_fields)
  qed
qed

lemma step_keeps_invariant:
  assumes "selectedInDevices s" and "allowed c s"
  shows "selectedInDevices (step c s)"
proof (cases c)
  case Mount
  with assms show ?thesis by (simp add: mount_def selectedInDevices_def)
next
  case Unmount
  with assms show ?thesis
    by (simp add: unmount_def exec_append exec_Cons exec_Nil stop_fields selectedInDevices_def
        split: option.splits)
next
  case (EnumerateDevices env)
  with assms show ?thesis by (simp add: getCameras_keeps_invariant)
next
  case (SelectDevice device)
  with assms show ?thesis
    by (auto simp add: changeCamera_def exec_append exec_Cons exec_Nil stop_fields
        selectedInDevices_def)
next
  case (StartScanning env)
  with assms show ?thesis by (simp add: startScanning_keeps_invariant)
next
  case StopScanning
  with assms show ?thesis by (simp add: stop_fields selectedInDevices_def)
next
  case (TimerCapture env)
  with assms show ?thesis
    by (simp add: captureStream_def exec_def selectedInDevices_def split: option.splits)
next
  case (TimerRestart env closure device)
  with assms show ?thesis
    by (simp add: restartScan_def exec_Nil startScanning_keeps_invariant)
next
  case (Frame result)
  with assms show ?thesis
    by (simp add: decodeCallback_def handleDetection_def exec_Cons exec_append exec_Nil
        stop_fields selectedInDevices_def split: option.splits)
qed

lemma run_keeps_invariant:
  "selectedInDevices s \<Longrightarrow> admissible cs s \<Longrightarrow> selectedInDevices (run cs s)"
  by (induction cs arbitrary: s) (simp_all add: step_keeps_invariant)

lemma getCameras_keeps_selection:
  "selectedCamera s \<noteq> [] \<Longrightarrow> selectedCamera (exec (getCameras env s) s) = selectedCamera s"
  by (simp add: getCameras_def exec_def split: option.splits list.splits)

lemma getCameras_autoselect:
  assumes "getUserMedia env = Some st" and "readerRef s = Some r"
    and "listVideoInputDevices env = Some (d0 # ds)" and "selectedCamera s = []"
  shows "selectedCamera (exec (getCameras env s) s) = cameraToUse (toLowerCase env) d0 ds"
  using assms by (simp add: getCameras_def exec_def)

section \<open>The validation of decoded text\<close>

text \<open>
  Claim C1. For every string \<open>s\<close>, the pattern of \<open>handleDetection\<close> accepts \<open>s\<close> if and only
  if \<open>s\<close> consists of exactly 10 or exactly 13 decimal digits. A frame whose text is accepted
  hands the text to the consumer callback exactly once; a frame whose text is rejected
  hands nothing to the consumer and leaves the state of the session as it was, so a
  scanning session goes on scanning.
\<close>

theorem isbn_validation:
  "(regex_test isbnRegex s \<longleftrightarrow> isAcceptableDecode_spec s)
   \<and> (regex_test isbnRegex s \<longrightarrow>
        count_list (decodeCallback st (Some s)) (OnDetected s) = 1)
   \<and> (\<not> regex_test isbnRegex s \<longrightarrow>
        (\<forall>r. OnDetected r \<notin> set (decodeCallback st (Some s)))
        \<and> exec (decodeCallback st (Some s)) st = st
        \<and> isScanning (exec (decodeCallback st (Some s)) st) = isScanning st)"
  by (simp add: test_isbnRegex decodeCallback_def handleDetection_def stopScanning_def exec_def
      split: option.splits)

theorem isbn_validation_witness:
  "regex_test isbnRegex isbn13
   \<and> count_list (decodeCallback scanningBack (Some isbn13)) (OnDetected isbn13) = 1
   \<and> \<not> regex_test isbnRegex notIsbn
   \<and> exec (decodeCallback scanningBack (Some notIsbn)) scanningBack = scanningBack
   \<and> isScanning (exec (decodeCallback scanningBack (Some notIsbn)) scanningBack)"
proof -
  have accepted: "regex_test isbnRegex isbn13"
    unfolding isbn13_def by code_simp
  have rejected: "\<not> regex_test isbnRegex notIsbn"
    unfolding notIsbn_def by code_simp
  have scanning: "isScanning scanningBack"
    by (simp add: scanningBack_def)
  from accepted rejected scanning
    isbn_validation [of isbn13 scanningBack] isbn_validation [of notIsbn scanningBack]
  show ?thesis by simp
qed

section \<open>Starting twice\<close>


section \<open>Selecting a device\<close>

text \<open>
  Claim C3, as amended. \<open>changeCamera\<close> does not look its argument up in the device list.
  For every state and every id \<open>x\<close>, in the list or not, it does not fail and leaves the
  device list, the error message and the reader as they were; it makes \<open>x\<close> the selected
  camera; a scan in progress is stopped (its actions come first, and the stream handle is
  dropped), and without one the selection is the only change; its last action schedules
  the delayed restart for \<open>x\<close>, which does nothing when \<open>x\<close> is empty.
\<close>

theorem changeCamera_sets_selection:
  "selectedCamera (exec (changeCamera s x) s) = x
   \<and> cameras (exec (changeCamera s x) s) = cameras s
   \<and> error (exec (changeCamera s x) s) = error s
   \<and> readerRef (exec (changeCamera s x) s) = readerRef s
   \<and> \<not> isScanning (exec (changeCamera s x) s)
   \<and> (isScanning s \<longrightarrow>
        streamRef (exec (changeCamera s x) s) = None
        \<and> take (length (stopScanning s)) (changeCamera s x) = stopScanning s)
   \<and> (\<not> isScanning s \<longrightarrow> exec (changeCamera s x) s = s\<lparr>selectedCamera := x\<rparr>)
   \<and> last (changeCamera s x) = SetTimeout (RestartScan x)
   \<and> (x = [] \<longrightarrow> restartScan env closure x s' = [])"
  by (auto simp add: changeCamera_def exec_append exec_Cons exec_Nil stop_fields restartScan_def)

theorem changeCamera_sets_selection_witness:
  "isScanning scanningBack
   \<and> streamRef (exec (changeCamera scanningBack ghost) scanningBack) = None
   \<and> selectedCamera (exec (changeCamera scanningBack ghost) scanningBack) = ghost
   \<and> \<not> isScanning mounted
   \<and> exec (changeCamera mounted ghost) mounted = mounted\<lparr>selectedCamera := ghost\<rparr>
   \<and> restartScan denyingPlatform mounted [] mounted = []"
proof -
  have scanning: "isScanning scanningBack" and idle: "\<not> isScanning mounted"
    by (simp_all add: scanningBack_def mounted_def mount_def initial_def)
  from scanning idle
    changeCamera_sets_selection [of scanningBack ghost denyingPlatform mounted mounted]
    changeCamera_sets_selection [of mounted ghost denyingPlatform mounted mounted]
    changeCamera_sets_selection [of mounted "[]" denyingPlatform mounted mounted]
  show ?thesis by blast
qed

text \<open>
  Against C3 as stated: \<open>ghost\<close> is not the id of any known device, and selecting it
  changes the state: it becomes the selected camera.
\<close>

theorem changeCamera_unknown_id_counterexample:
  "ghost \<notin> set (map deviceId (cameras mounted))
   \<and> exec (changeCamera mounted ghost) mounted \<noteq> mounted
   \<and> selectedCamera (exec (changeCamera mounted ghost) mounted) = ghost
   \<and> selectedCamera mounted \<noteq> ghost"
  by (simp add: changeCamera_def exec_def example_defs)

section \<open>The selection and the device list\<close>

text \<open>
  Claim C4, as amended. Starting from the initial state, let the mount effect, the four
  operations, the delayed callbacks and decoded frames run in any order, where
  \<open>selectDevice\<close> is only given the id of a listed device (or the empty id) and every device
  list the platform returns while a camera is selected still contains that camera. Then
  in every state reached, the selected camera, if set, is the id of a listed device. The
  hook never clears the selection: a device refresh made while a camera is selected
  leaves the selection as it is, whatever the new list.
\<close>

theorem selection_invariant:
  "(admissible cs initial \<longrightarrow> selectedInDevices (run cs initial))
   \<and> (selectedCamera s \<noteq> [] \<longrightarrow>
        selectedCamera (step (EnumerateDevices env) s) = selectedCamera s)"
proof -
  have "selectedInDevices initial"
    by (simp add: selectedInDevices_def initial_def)
  then show ?thesis
    by (simp add: run_keeps_invariant getCameras_keeps_selection)
qed

theorem selection_invariant_witness:
  "admissible [Mount, EnumerateDevices (grantingPlatform [frontCam, backCam]),
               StartScanning (grantingPlatform [frontCam, backCam]),
               TimerCapture (grantingPlatform [frontCam, backCam]),
               SelectDevice (js ''cam-a''), StopScanning] initial
   \<and> selectedInDevices
       (run [Mount, EnumerateDevices (grantingPlatform [frontCam, backCam]),
             StartScanning (grantingPlatform [frontCam, backCam]),
             TimerCapture (grantingPlatform [frontCam, backCam]),
             SelectDevice (js ''cam-a''), StopScanning] initial)
   \<and> selectedCamera scanningBack \<noteq> []
   \<and> selectedCamera (step (EnumerateDevices (grantingPlatform [frontCam])) scanningBack)
       = js ''cam-b''"
proof -
  have adm: "admissible [Mount, EnumerateDevices (grantingPlatform [frontCam, backCam]),
               StartScanning (grantingPlatform [frontCam, backCam]),
               TimerCapture (grantingPlatform [frontCam, backCam]),
               SelectDevice (js ''cam-a''), StopScanning] initial"
    by (simp add: example_defs operation_defs)
  have sel: "selectedCamera scanningBack \<noteq> []" "selectedCamera scanningBack = js ''cam-b''"
    by (simp_all add: example_defs)
  from adm sel
    selection_invariant [of "[Mount, EnumerateDevices (grantingPlatform [frontCam, backCam]),
               StartScanning (grantingPlatform [frontCam, backCam]),
               TimerCapture (grantingPlatform [frontCam, backCam]),
               SelectDevice (js ''cam-a''), StopScanning]" scanningBack
               "grantingPlatform [frontCam]"]
  show ?thesis by simp
qed

text \<open>
  Against C4 as stated: after a refresh that no longer lists the selected camera the
  selection is neither listed nor cleared, and selecting an unknown id from the initial
  state breaks the invariant at once.
\<close>

theorem selection_invariant_counterexample:
  "selectedCamera (run [Mount, EnumerateDevices (grantingPlatform [frontCam]),
                        EnumerateDevices (grantingPlatform [backCam])] initial) = js ''cam-a''
   \<and> map deviceId (cameras (run [Mount, EnumerateDevices (grantingPlatform [frontCam]),
                        EnumerateDevices (grantingPlatform [backCam])] initial)) = [js ''cam-b'']
   \<and> \<not> selectedInDevices (run [Mount, EnumerateDevices (grantingPlatform [frontCam]),
                        EnumerateDevices (grantingPlatform [backCam])] initial)
   \<and> \<not> selectedInDevices (run [SelectDevice ghost] initial)"
  by (simp add: example_defs operation_defs)

section \<open>Stopping\<close>

text \<open>
  Claim C5. \<open>stopScanning\<close> is idempotent: for every state, calling it twice in a row gives
  the state that calling it once gives. It is safe when nothing is scanning: with no scan
  and no stream handle it leaves the state as it is. After the call the stream handle is
  released (its tracks were stopped and the ref is empty), the reader, when there is one,
  was reset, and the session is not scanning.
\<close>

theorem stopScanning_idempotent:
  "run [StopScanning, StopScanning] s = run [StopScanning] s
   \<and> streamRef (run [StopScanning] s) = None
   \<and> (\<forall>st. streamRef s = Some st \<longrightarrow> StopTracks st \<in> set (stopScanning s))
   \<and> (readerRef s \<noteq> None \<longrightarrow> ReaderReset \<in> set (stopScanning s))
   \<and> \<not> isScanning (run [StopScanning] s)
   \<and> (\<not> isScanning s \<and> streamRef s = None \<longrightarrow> run [StopScanning] s = s)"
  by (auto simp add: stopScanning_def exec_def split: option.splits)

theorem stopScanning_idempotent_witness:
  "streamRef scanningBack = Some 2
   \<and> StopTracks 2 \<in> set (stopScanning scanningBack)
   \<and> readerRef scanningBack \<noteq> None
   \<and> ReaderReset \<in> set (stopScanning scanningBack)
   \<and> run [StopScanning, StopScanning] scanningBack = run [StopScanning] scanningBack
   \<and> \<not> isScanning mounted \<and> streamRef mounted = None
   \<and> run [StopScanning] mounted = mounted"
proof -
  have held: "streamRef scanningBack = Some 2" "readerRef scanningBack \<noteq> None"
    and idle: "\<not> isScanning mounted" "streamRef mounted = None"
    by (simp_all add: example_defs)
  from held idle stopScanning_idempotent [of scanningBack] stopScanning_idempotent [of mounted]
  show ?thesis by simp
qed

section \<open>Choosing a camera after enumeration\<close>

text \<open>
  Claim C6. When the platform lists at least one device and no camera is selected (the
  permission was granted and the reader exists, so that there is an enumeration result),
  \<open>getCameras\<close> selects the first device whose lower-cased label contains \<open>back\<close>,
  \<open>traseira\<close> or \<open>rear\<close>, and the first listed device when no label matches. Device ids
  are non-empty strings: the empty string is how the hook stores that no camera is
  selected.
\<close>

theorem autoselect_camera:
  assumes "getUserMedia env = Some st" and "readerRef s = Some r"
    and "listVideoInputDevices env = Some devices" and "devices \<noteq> []"
    and "selectedCamera s = []"
    and "\<forall>d\<in>set devices. deviceId d \<noteq> []"
  shows "(\<forall>i<length devices.
            isBackCamera (toLowerCase env) (devices ! i)
            \<and> (\<forall>j<i. \<not> isBackCamera (toLowerCase env) (devices ! j)) \<longrightarrow>
            selectedCamera (exec (getCameras env s) s) = deviceId (devices ! i))
       \<and> ((\<forall>d\<in>set devices. \<not> isBackCamera (toLowerCase env) d) \<longrightarrow>
            selectedCamera (exec (getCameras env s) s) = deviceId (hd devices))"
proof -
  from assms(4) obtain d0 ds where devs: "devices = d0 # ds" by (cases devices) auto
  have sel: "selectedCamera (exec (getCameras env s) s) = cameraToUse (toLowerCase env) d0 ds"
    using assms(1,2,3,5) devs by (simp add: getCameras_autoselect)
  have first: "selectedCamera (exec (getCameras env s) s) = deviceId (devices ! i)"
    if "i < length devices" "isBackCamera (toLowerCase env) (devices ! i)"
       "\<forall>j<i. \<not> isBackCamera (toLowerCase env) (devices ! j)" for i
  proof -
    from that have "find (isBackCamera (toLowerCase env)) devices = Some (devices ! i)"
      by (auto simp add: find_Some_iff)
    moreover from that(1) have "devices ! i \<in> set devices"
      by (rule nth_mem)
    with assms(6) have "deviceId (devices ! i) \<noteq> []"
      by blast
    ultimately show ?thesis
      unfolding sel cameraToUse_def devs[symmetric] by simp
  qed
  have none: "selectedCamera (exec (getCameras env s) s) = deviceId (hd devices)"
    if "\<forall>d\<in>set devices. \<not> isBackCamera (toLowerCase env) d"
  proof -
    from that have "find (isBackCamera (toLowerCase env)) devices = None"
      by (simp add: find_None_iff)
    then show ?thesis
      unfolding sel cameraToUse_def devs[symmetric] by (simp add: devs)
  qed
  from first none show ?thesis by blast
qed

text \<open>The two examples of the specification: [Front, Back Camera] and [Front, USB Cam].\<close>

theorem autoselect_camera_witness:
  "selectedCamera (exec (getCameras (grantingPlatform [frontCam, backCam]) mounted) mounted)
     = deviceId backCam
   \<and> selectedCamera (exec (getCameras (grantingPlatform [frontCam, usbCam]) mounted) mounted)
     = deviceId frontCam"
proof -
  have labels: "\<not> isBackCamera asciiLower frontCam" "isBackCamera asciiLower backCam"
    "\<not> isBackCamera asciiLower usbCam"
    by (simp_all add: example_defs isBackCamera_def)
  have ids: "\<forall>d\<in>set [frontCam, backCam]. deviceId d \<noteq> []"
    "\<forall>d\<in>set [frontCam, usbCam]. deviceId d \<noteq> []"
    by (simp_all add: example_defs)
  have state: "readerRef mounted = Some newReader" "selectedCamera mounted = []"
    by (simp_all add: mounted_def mount_def initial_def)
  have env: "getUserMedia (grantingPlatform ds) = Some 1"
    "listVideoInputDevices (grantingPlatform ds) = Some ds"
    "toLowerCase (grantingPlatform ds) = asciiLower" for ds
    by (simp_all add: grantingPlatform_def)
  have rear: "selectedCamera (exec (getCameras (grantingPlatform [frontCam, backCam]) mounted) mounted)
     = deviceId backCam"
    using autoselect_camera [of "grantingPlatform [frontCam, backCam]" 1 mounted newReader
        "[frontCam, backCam]", OF env(1) state(1) env(2) _ state(2) ids(1)]
      labels
    by (simp add: env less_Suc_eq all_conj_distrib)
  have front: "selectedCamera (exec (getCameras (grantingPlatform [frontCam, usbCam]) mounted) mounted)
     = deviceId frontCam"
    using autoselect_camera [of "grantingPlatform [frontCam, usbCam]" 1 mounted newReader
        "[frontCam, usbCam]", OF env(1) state(1) env(2) _ state(2) ids(2)]
      labels
    by (simp add: env)
  from rear front show ?thesis by simp
qed

section \<open>Permission denied\<close>

text \<open>
  Claim C7. If the platform denies the camera during \<open>getCameras\<close>, the error message of the
  session afterwards is the denial message, which is not empty, and the device list is
  what it was: no device list is stored, so an empty list stays empty.
\<close>

theorem getCameras_permission_denied:
  assumes "getUserMedia env = None"
  shows "error (exec (getCameras env s) s) = permissionDenied
       \<and> permissionDenied \<noteq> []
       \<and> cameras (exec (getCameras env s) s) = cameras s
       \<and> (\<forall>ds. SetCameras ds \<notin> set (getCameras env s))
       \<and> (cameras s = [] \<longrightarrow> cameras (exec (getCameras env s) s) = [])"
  using assms by (simp add: getCameras_def exec_def permissionDenied_def js_def)

theorem getCameras_permission_denied_witness:
  "getUserMedia denyingPlatform = None
   \<and> cameras mounted = []
   \<and> error (exec (getCameras denyingPlatform mounted) mounted) = permissionDenied
   \<and> cameras (exec (getCameras denyingPlatform mounted) mounted) = []"
proof -
  have denied: "getUserMedia denyingPlatform = None" and empty: "cameras mounted = []"
    by (simp_all add: denyingPlatform_def mounted_def mount_def initial_def)
  from empty getCameras_permission_denied [OF denied, of mounted] denied
  show ?thesis by simp
qed

section \<open>Starting without devices\<close>

text \<open>
  Claim C8. For every state in which no camera is selected and no device is known,
  \<open>startScanning\<close> clears the error, runs \<open>getCameras\<close> (the camera is requested from the
  platform) and returns: it does not set the session scanning, it makes no call to
  \<open>decodeFromVideoDevice\<close>, and \<open>isScanning\<close> is what it was. The state is one in which the
  reader exists, as it does in every state after the mount effect
  (\<open>readerRef_after_mount\<close>); the call without a reader is the failure of the next section.
\<close>

theorem startScanning_without_devices:
  assumes "readerRef s \<noteq> None" and "selectedCamera s = []" and "cameras s = []"
  shows "startScanning env s = SetError [] # getCameras env s
       \<and> GetUserMedia \<in> set (startScanning env s)
       \<and> isScanning (exec (startScanning env s) s) = isScanning s
       \<and> SetIsScanning True \<notin> set (startScanning env s)
       \<and> (\<forall>d. DecodeFromVideoDevice d \<notin> set (startScanning env s))"
  using assms
  by (auto simp add: startScanning_def getCameras_def exec_def split: option.splits list.splits)

theorem startScanning_without_devices_witness:
  "readerRef mounted \<noteq> None \<and> selectedCamera mounted = [] \<and> cameras mounted = []
   \<and> GetUserMedia \<in> set (startScanning (grantingPlatform [frontCam, backCam]) mounted)
   \<and> \<not> isScanning (exec (startScanning (grantingPlatform [frontCam, backCam]) mounted) mounted)"
proof -
  have pre: "readerRef mounted \<noteq> None" "selectedCamera mounted = []" "cameras mounted = []"
    "\<not> isScanning mounted"
    by (simp_all add: mounted_def mount_def initial_def)
  from pre startScanning_without_devices [OF pre(1) pre(2) pre(3),
      of "grantingPlatform [frontCam, backCam]"]
  show ?thesis by metis
qed

section \<open>Starting without a reader\<close>

text \<open>
  Claim C9, as amended. When there is no reader, \<open>startScanning\<close> only clears the error
  message and returns: no message is stored in the state (the error is empty afterwards),
  and \<open>isScanning\<close> is unchanged, so the call does not set the session scanning.
\<close>

theorem startScanning_without_reader:
  "readerRef s = None \<Longrightarrow>
     startScanning env s = [SetError []]
     \<and> exec (startScanning env s) s = s\<lparr>error := []\<rparr>
     \<and> error (exec (startScanning env s) s) = []
     \<and> isScanning (exec (startScanning env s) s) = isScanning s"
  by (simp add: startScanning_def exec_def)

theorem startScanning_without_reader_witness:
  "readerRef initial = None
   \<and> startScanning denyingPlatform initial = [SetError []]
   \<and> \<not> isScanning (exec (startScanning denyingPlatform initial) initial)"
proof -
  have pre: "readerRef initial = None" and idle: "\<not> isScanning initial"
    by (simp_all add: initial_def)
  from pre idle startScanning_without_reader [OF pre, of denyingPlatform]
  show ?thesis by metis
qed

text \<open>
  Against C9 as stated: with no reader the state holds no error message after the call;
  even the message of an earlier failure is gone.
\<close>

theorem startScanning_without_reader_counterexample:
  "readerRef staleError = None
   \<and> error staleError \<noteq> []
   \<and> error (exec (startScanning (grantingPlatform [frontCam, backCam]) staleError) staleError)
       = []"
  by (simp add: startScanning_def exec_def example_defs)

section \<open>Clearing the error message\<close>

text \<open>
  Claim C10. The first action of every call of \<open>getCameras\<close> and of \<open>startScanning\<close> sets the
  error message to the empty string. The message in the resulting state does not depend
  on the message before the call: it is empty or one of the messages the call itself
  sets.
\<close>

theorem error_cleared_first:
  "hd (getCameras env s) = SetError []
   \<and> hd (startScanning env s) = SetError []
   \<and> error (exec (getCameras env (s\<lparr>error := e\<rparr>)) (s\<lparr>error := e\<rparr>))
       = error (exec (getCameras env s) s)
   \<and> error (exec (startScanning env (s\<lparr>error := e\<rparr>)) (s\<lparr>error := e\<rparr>))
       = error (exec (startScanning env s) s)
   \<and> error (exec (getCameras env s) s) \<in> {[], permissionDenied, couldNotAccess}
   \<and> error (exec (startScanning env s) s)
       \<in> {[], permissionDenied, couldNotAccess, errorInitializing}"
  apply (intro conjI)
  subgoal by (simp add: getCameras_def)
  subgoal by (simp add: startScanning_def)
  subgoal by (simp add: getCameras_error cong: option.case_cong)
  subgoal by (simp add: startScanning_error getCameras_error cong: option.case_cong)
  subgoal by (simp add: getCameras_error split: option.splits)
  subgoal
    by (simp add: startScanning_error getCameras_error split: option.splits decode_outcome.splits)
  done

end
